theory Spec2Isabelle
  imports Main "HOL-Library.AList" "HOL-Library.Sublist" "HOL-Library.Word"
begin

section \<open>Data model of \<^verbatim>\<open>src/index.ts\<close>\<close>

text \<open>
  The two interfaces of the source, \<^verbatim>\<open>Challenge\<close> (fields \<^verbatim>\<open>challenge: {c, s, d}\<close>,
  \<^verbatim>\<open>token\<close>, \<^verbatim>\<open>expires\<close>) and \<^verbatim>\<open>StoredToken\<close> (field \<^verbatim>\<open>expires\<close>), are the two
  kinds of value the Durable Object keeps. Both carry \<^verbatim>\<open>expires\<close>, a millisecond
  timestamp, which the code reads without looking at the kind of record; the selector
  \<open>expires\<close> is therefore shared. The triple is \<^verbatim>\<open>(c, s, d)\<close>.
\<close>

datatype stored =
  Challenge (challenge: "int \<times> int \<times> int") (token: string) (expires: int)
| StoredToken (expires: int)

text \<open>
  A value thrown by the code: an instance of \<^verbatim>\<open>Error\<close> with its message, or any other
  thrown value (the handlers test \<^verbatim>\<open>err instanceof Error\<close>).
\<close>

datatype thrown = Error string | NonError

definition ERR_NOT_FOUND :: string where
  "ERR_NOT_FOUND = ''NOT_FOUND''"

definition ERR_EXPIRED :: string where
  "ERR_EXPIRED = ''EXPIRED''"

definition CLEANUP_INTERVAL_MS :: int where
  "CLEANUP_INTERVAL_MS = 60 * 1000"

section \<open>The storage of the Durable Object\<close>

text \<open>
  \<^verbatim>\<open>this.state.storage\<close> is a key-value store with string keys, together with one
  alarm time. The entries are kept as an association list so that \<^verbatim>\<open>list({prefix})\<close>
  can enumerate them; \<open>storage_put\<close> replaces the value of a key that is present, so a
  store built from the empty one never holds a key twice.
\<close>

record storage =
  entries :: "(string \<times> stored) list"
  alarm_time :: "int option"

definition storage_get :: "string \<Rightarrow> storage \<Rightarrow> stored option" where
  "storage_get key st = map_of (entries st) key"

definition storage_put :: "string \<Rightarrow> stored \<Rightarrow> storage \<Rightarrow> storage" where
  "storage_put key v st = st\<lparr>entries := AList.update key v (entries st)\<rparr>"

definition storage_delete :: "string \<Rightarrow> storage \<Rightarrow> storage" where
  "storage_delete key st = st\<lparr>entries := AList.delete key (entries st)\<rparr>"

definition storage_list :: "string \<Rightarrow> storage \<Rightarrow> (string \<times> stored) list" where
  "storage_list p st = filter (\<lambda>kv. prefix p (fst kv)) (entries st)"

definition getAlarm :: "storage \<Rightarrow> int option" where
  "getAlarm st = alarm_time st"

definition setAlarm :: "int \<Rightarrow> storage \<Rightarrow> storage" where
  "setAlarm t st = st\<lparr>alarm_time := Some t\<rparr>"

text \<open>
  Modelled from the spec: \<^verbatim>\<open>storage.transaction(closure)\<close> is a primitive of the
  hosting platform (\<^verbatim>\<open>cloudflare:workers\<close>) and is not part of the repository. The spec
  describes it as an atomic unit that either commits or aborts, an abort leaving the
  store exactly as it was before the call. The closure works on the transaction handle
  \<^verbatim>\<open>txn\<close>, here a working copy of the store: when the closure returns, the copy is
  committed; when it throws, the copy is dropped and the exception is passed on.
\<close>

definition transaction ::
  "(storage \<Rightarrow> (thrown + 'a) \<times> storage) \<Rightarrow> storage \<Rightarrow> (thrown + 'a) \<times> storage" where
  "transaction closure st =
     (case closure st of
        (Inl err, txn) \<Rightarrow> (Inl err, st)
      | (Inr r, txn) \<Rightarrow> (Inr r, txn))"

section \<open>Storage methods of \<^verbatim>\<open>CapStorageDurableObject\<close>\<close>

text \<open>The constructor arms the cleanup alarm when none is pending (\<^verbatim>\<open>!existingAlarm\<close>).\<close>

definition initializing :: "int \<Rightarrow> storage \<Rightarrow> storage" where
  "initializing now st =
     (case getAlarm st of
        None \<Rightarrow> setAlarm (now + CLEANUP_INTERVAL_MS) st
      | Some existingAlarm \<Rightarrow>
          if existingAlarm = 0 then setAlarm (now + CLEANUP_INTERVAL_MS) st else st)"

definition storeChallenge :: "string \<Rightarrow> stored \<Rightarrow> storage \<Rightarrow> storage" where
  "storeChallenge tok challengeData st = storage_put (''challenge:'' @ tok) challengeData st"

definition getChallenge :: "string \<Rightarrow> storage \<Rightarrow> stored option" where
  "getChallenge tok st = storage_get (''challenge:'' @ tok) st"

text \<open>
  The closure of \<^verbatim>\<open>finalizeRedeem\<close>, run on the transaction handle. \<open>now\<close> is the value
  \<^verbatim>\<open>Date.now()\<close> returns inside the closure.
\<close>

definition finalizeRedeem_closure ::
  "int \<Rightarrow> string \<Rightarrow> string \<Rightarrow> stored \<Rightarrow> storage \<Rightarrow> (thrown + unit) \<times> storage" where
  "finalizeRedeem_closure now tok tokenHash tokenData txn =
     (case storage_get (''challenge:'' @ tok) txn of
        None \<Rightarrow> (Inl (Error ERR_NOT_FOUND), txn)
      | Some existing \<Rightarrow>
          if expires existing < now
          then (Inl (Error ERR_EXPIRED), storage_delete (''challenge:'' @ tok) txn)
          else (Inr (),
                storage_put (''token:'' @ tokenHash) tokenData
                  (storage_delete (''challenge:'' @ tok) txn)))"

definition finalizeRedeem ::
  "int \<Rightarrow> string \<Rightarrow> string \<Rightarrow> stored \<Rightarrow> storage \<Rightarrow> (thrown + unit) \<times> storage" where
  "finalizeRedeem now tok tokenHash tokenData st =
     transaction (finalizeRedeem_closure now tok tokenHash tokenData) st"

text \<open>
  \<^verbatim>\<open>keepToken?: boolean\<close> is an optional flag; \<^verbatim>\<open>!keepToken\<close> holds when it is missing
  or false.
\<close>

definition validateAndConsumeToken_closure ::
  "int \<Rightarrow> string \<Rightarrow> bool option \<Rightarrow> storage \<Rightarrow> (thrown + unit) \<times> storage" where
  "validateAndConsumeToken_closure now tokenHash keepToken txn =
     (case storage_get (''token:'' @ tokenHash) txn of
        None \<Rightarrow> (Inl (Error ERR_NOT_FOUND), txn)
      | Some tokenData \<Rightarrow>
          if expires tokenData < now
          then (Inl (Error ERR_EXPIRED), storage_delete (''token:'' @ tokenHash) txn)
          else if keepToken = Some True then (Inr (), txn)
          else (Inr (), storage_delete (''token:'' @ tokenHash) txn))"

definition validateAndConsumeToken ::
  "int \<Rightarrow> string \<Rightarrow> bool option \<Rightarrow> storage \<Rightarrow> (thrown + unit) \<times> storage" where
  "validateAndConsumeToken now tokenHash keepToken st =
     transaction (validateAndConsumeToken_closure now tokenHash keepToken) st"

section \<open>The cleanup alarm\<close>

text \<open>
  The storage calls of \<^verbatim>\<open>alarm\<close> (\<^verbatim>\<open>list\<close>, \<^verbatim>\<open>delete\<close>) may raise. \<open>faults\<close> says
  which one does: \<open>Some n\<close> when the storage call number \<open>n\<close> of the \<^verbatim>\<open>try\<close> block,
  counted from 0, raises, and \<open>None\<close> when none does. \<open>storage_call\<close> passes one call:
  \<open>None\<close> is the raise, otherwise the remaining count is returned. A call that raises
  has no effect, and the two \<^verbatim>\<open>setAlarm\<close> calls are taken to succeed.
\<close>

definition storage_fault :: thrown where
  "storage_fault = Error ''storage operation failed''"

fun storage_call :: "nat option \<Rightarrow> nat option option" where
  "storage_call None = Some None"
| "storage_call (Some 0) = None"
| "storage_call (Some (Suc n)) = Some (Some n)"

text \<open>
  One \<^verbatim>\<open>for (const [key, value] of listed)\<close> loop of \<^verbatim>\<open>alarm\<close>: the listing was taken
  before the loop, the deletions act on the store. The listing is walked in the order of
  the store.
\<close>

fun sweep ::
  "int \<Rightarrow> (string \<times> stored) list \<Rightarrow> nat option \<Rightarrow> storage \<Rightarrow> (thrown + nat option) \<times> storage" where
  "sweep now [] faults st = (Inr faults, st)"
| "sweep now ((key, v) # listed) faults st =
     (if expires v < now then
        (case storage_call faults of
           None \<Rightarrow> (Inl storage_fault, st)
         | Some faults' \<Rightarrow> sweep now listed faults' (storage_delete key st))
      else sweep now listed faults st)"

text \<open>
  The \<^verbatim>\<open>try\<close> block. \<open>now\<close> is the first \<^verbatim>\<open>Date.now()\<close>, \<open>now'\<close> the one read when the
  alarm is set again.
\<close>

definition alarm_try :: "int \<Rightarrow> int \<Rightarrow> nat option \<Rightarrow> storage \<Rightarrow> (thrown + unit) \<times> storage" where
  "alarm_try now now' faults st =
     (case storage_call faults of
        None \<Rightarrow> (Inl storage_fault, st)
      | Some faults1 \<Rightarrow>
          (case sweep now (storage_list ''challenge:'' st) faults1 st of
             (Inl err, st1) \<Rightarrow> (Inl err, st1)
           | (Inr faults2, st1) \<Rightarrow>
               (case storage_call faults2 of
                  None \<Rightarrow> (Inl storage_fault, st1)
                | Some faults3 \<Rightarrow>
                    (case sweep now (storage_list ''token:'' st1) faults3 st1 of
                       (Inl err, st2) \<Rightarrow> (Inl err, st2)
                     | (Inr faults4, st2) \<Rightarrow>
                         (Inr (), setAlarm (now' + CLEANUP_INTERVAL_MS) st2)))))"

definition alarm :: "int \<Rightarrow> int \<Rightarrow> nat option \<Rightarrow> storage \<Rightarrow> storage" where
  "alarm now now' faults st =
     (case alarm_try now now' faults st of
        (Inr u, st') \<Rightarrow> st'
      | (Inl err, st') \<Rightarrow> setAlarm (now' + CLEANUP_INTERVAL_MS) st')"

section \<open>\<^verbatim>\<open>hashToken\<close>\<close>

text \<open>
  \<^verbatim>\<open>String.prototype.split\<close> with a one-character separator: the empty string gives one
  empty segment.
\<close>

fun js_split :: "char \<Rightarrow> string \<Rightarrow> string list" where
  "js_split sep [] = [[]]"
| "js_split sep (x # xs) =
     (if x = sep then [] # js_split sep xs
      else (case js_split sep xs of
              [] \<Rightarrow> [[x]]
            | w # ws \<Rightarrow> (x # w) # ws))"

definition hex_digit :: "nat \<Rightarrow> char" where
  "hex_digit n = ''0123456789abcdef'' ! n"

text \<open>
  \<^verbatim>\<open>b.toString(16)\<close> on a non-negative integer, and \<^verbatim>\<open>padStart\<close>. \<open>hex_digit\<close> is
  only applied to numbers below 16.
\<close>

function toString16 :: "nat \<Rightarrow> string" where
  "toString16 n =
     (if n < 16 then [hex_digit n] else toString16 (n div 16) @ [hex_digit (n mod 16)])"
  by pat_completeness auto
termination
  by (relation "measure id") auto

declare toString16.simps [simp del]

definition padStart :: "nat \<Rightarrow> char \<Rightarrow> string \<Rightarrow> string" where
  "padStart n c str = replicate (n - length str) c @ str"

definition hex_byte :: "8 word \<Rightarrow> string" where
  "hex_byte b = padStart 2 (CHR ''0'') (toString16 (unat b))"

text \<open>
  \<^verbatim>\<open>TextEncoder.encode\<close>: a \<open>string\<close> here is the UTF-8 byte sequence of the text, and
  \<^verbatim>\<open>:\<close> is a single byte that occurs in no multi-byte sequence.
\<close>

definition encode :: "string \<Rightarrow> 8 word list" where
  "encode str = map (\<lambda>ch. word_of_nat (of_char ch)) str"

text \<open>
  \<^verbatim>\<open>crypto.subtle.digest('SHA-256', data)\<close> belongs to the platform; \<open>hashToken\<close> takes
  it as the parameter \<open>digest\<close>. In \<^verbatim>\<open>const [id, rawToken] = token.split(":")\<close> a missing
  second element is \<^verbatim>\<open>undefined\<close>, and \<^verbatim>\<open>!x\<close> holds for \<^verbatim>\<open>undefined\<close> and for the
  empty string.
\<close>

definition hashToken :: "(8 word list \<Rightarrow> 8 word list) \<Rightarrow> string \<Rightarrow> thrown + string" where
  "hashToken digest tok =
     (case js_split (CHR '':'') tok of
        ident # rawToken # others \<Rightarrow>
          if ident = [] \<or> rawToken = [] then Inl (Error ''Invalid token format'')
          else Inr (ident @ '':'' @ concat (map hex_byte (digest (encode rawToken))))
      | _ \<Rightarrow> Inl (Error ''Invalid token format''))"

section \<open>The Worker: \<^verbatim>\<open>fetch\<close>\<close>

definition API_BASE :: string where
  "API_BASE = ''/api''"

definition CHALLENGE_PATH :: string where
  "CHALLENGE_PATH = API_BASE @ ''/challenge''"

definition REDEEM_PATH :: string where
  "REDEEM_PATH = API_BASE @ ''/redeem''"

definition VALIDATE_PATH :: string where
  "VALIDATE_PATH = API_BASE @ ''/validate''"

text \<open>
  What \<^verbatim>\<open>request.json()\<close> gives: it throws (\<open>InvalidJson\<close>), or it returns a value of
  which the handlers read the fields \<^verbatim>\<open>token\<close>, \<^verbatim>\<open>solutions\<close> and \<^verbatim>\<open>keepToken\<close>, each
  of which may be missing. \<open>json_solutions\<close> is \<open>None\<close> also when the field is not an
  array.
\<close>

datatype json =
  InvalidJson
| Json (json_token: "string option") (json_solutions: "int list option")
    (json_keepToken: "bool option")

record request =
  req_method :: string
  req_pathname :: string
  req_json :: json

text \<open>The object \<^verbatim>\<open>cap.redeemChallenge\<close> returns: \<^verbatim>\<open>{success, token?, expires?}\<close>.\<close>

datatype redeem_result =
  RedeemResult (success: bool) (result_token: "string option") (result_expires: "int option")

text \<open>
  A response: its status (200 when the code gives none) and its body. \<open>JsonFailure msg\<close>
  is \<^verbatim>\<open>{success: false, error: msg}\<close>, \<open>JsonSuccess\<close> is \<^verbatim>\<open>{success: true}\<close>; the
  other JSON bodies are the serialised challenge and the serialised result of the
  verification.
\<close>

datatype resp_body =
  NoBody
| Text string
| JsonFailure string
| JsonSuccess
| JsonChallenge stored
| JsonResult redeem_result

datatype response = Response (status: nat) (body: resp_body)

text \<open>
  What the Worker takes from outside the repository: the digest of the platform, the
  challenge the library creates for this request (its \<^verbatim>\<open>challenge\<close>, \<^verbatim>\<open>token\<close> and
  \<^verbatim>\<open>expires\<close>), the library's verification, and \<open>interleaved\<close>, the effect on the store
  of the requests of other callers that the Durable Object serves between the
  \<^verbatim>\<open>getChallenge\<close> and the \<^verbatim>\<open>finalizeRedeem\<close> of one redeem request.
\<close>

record env =
  sha256 :: "8 word list \<Rightarrow> 8 word list"
  createChallenge :: "(int \<times> int \<times> int) \<times> string \<times> int"
  verifyChallengeSolution :: "stored \<Rightarrow> int list \<Rightarrow> redeem_result"
  interleaved :: "storage \<Rightarrow> storage"

definition challenge_route :: "env \<Rightarrow> storage \<Rightarrow> (thrown + response) \<times> storage" where
  "challenge_route e st =
     (case createChallenge e of
        (spec, tok, expiry) \<Rightarrow>
          (Inr (Response 200 (JsonChallenge (Challenge spec tok expiry))),
           if tok = [] then st else storeChallenge tok (Challenge spec tok expiry) st))"

text \<open>The \<^verbatim>\<open>catch\<close> block around \<^verbatim>\<open>finalizeRedeem\<close>.\<close>

definition redeem_catch :: "thrown \<Rightarrow> response" where
  "redeem_catch err =
     (case err of
        Error msg \<Rightarrow>
          if msg = ERR_EXPIRED then Response 410 (JsonFailure ''Challenge expired'')
          else Response 409 (JsonFailure ''Challenge already redeemed'')
      | NonError \<Rightarrow> Response 409 (JsonFailure ''Challenge already redeemed''))"

text \<open>
  \<^verbatim>\<open>result.success && result.token && result.expires\<close>: the token is present and not
  empty, the expiry present and not 0. \<^verbatim>\<open>hashToken\<close> is called outside the \<^verbatim>\<open>try\<close>.
\<close>

definition redeem_verified ::
  "env \<Rightarrow> int \<Rightarrow> string \<Rightarrow> redeem_result \<Rightarrow> storage \<Rightarrow> (thrown + response) \<times> storage" where
  "redeem_verified e now tok result st =
     (case (result_token result, result_expires result) of
        (Some rtoken, Some rexpires) \<Rightarrow>
          if success result \<and> rtoken \<noteq> [] \<and> rexpires \<noteq> 0 then
            (case hashToken (sha256 e) rtoken of
               Inl err \<Rightarrow> (Inl err, st)
             | Inr tokenHash \<Rightarrow>
                 (case finalizeRedeem now tok tokenHash (StoredToken rexpires)
                         (interleaved e st) of
                    (Inl err, st') \<Rightarrow> (Inr (redeem_catch err), st')
                  | (Inr u, st') \<Rightarrow> (Inr (Response 200 (JsonResult result)), st')))
          else (Inr (Response 200 (JsonResult result)), st)
      | _ \<Rightarrow> (Inr (Response 200 (JsonResult result)), st))"

definition redeem_route ::
  "env \<Rightarrow> int \<Rightarrow> request \<Rightarrow> storage \<Rightarrow> (thrown + response) \<times> storage" where
  "redeem_route e now req st =
     (case req_json req of
        InvalidJson \<Rightarrow> (Inr (Response 400 (JsonFailure ''Invalid request body'')), st)
      | Json (Some tok) (Some solutions) keepToken \<Rightarrow>
          if tok = [] then
            (Inr (Response 400 (JsonFailure ''Missing token or solutions'')), st)
          else
            (case getChallenge tok st of
               None \<Rightarrow> (Inr (Response 404 (JsonFailure ''Challenge not found'')), st)
             | Some ch \<Rightarrow>
                 redeem_verified e now tok (verifyChallengeSolution e ch solutions) st)
      | Json tok solutions keepToken \<Rightarrow>
          (Inr (Response 400 (JsonFailure ''Missing token or solutions'')), st))"

text \<open>The \<^verbatim>\<open>catch\<close> block around \<^verbatim>\<open>validateAndConsumeToken\<close>.\<close>

definition validate_catch :: "thrown \<Rightarrow> response" where
  "validate_catch err =
     (case err of
        Error msg \<Rightarrow>
          if msg = ERR_NOT_FOUND then Response 404 (JsonFailure ''Token not found'')
          else if msg = ERR_EXPIRED then Response 410 (JsonFailure ''Token expired'')
          else Response 409 (JsonFailure ''Token already consumed'')
      | NonError \<Rightarrow> Response 409 (JsonFailure ''Token already consumed''))"

definition validate_route ::
  "env \<Rightarrow> int \<Rightarrow> request \<Rightarrow> storage \<Rightarrow> (thrown + response) \<times> storage" where
  "validate_route e now req st =
     (case req_json req of
        InvalidJson \<Rightarrow> (Inr (Response 400 (JsonFailure ''Invalid request body'')), st)
      | Json None solutions keepToken \<Rightarrow>
          (Inr (Response 400 (JsonFailure ''Missing token'')), st)
      | Json (Some tok) solutions keepToken \<Rightarrow>
          if tok = [] then (Inr (Response 400 (JsonFailure ''Missing token'')), st)
          else
            (case hashToken (sha256 e) tok of
               Inl err \<Rightarrow> (Inl err, st)
             | Inr tokenHash \<Rightarrow>
                 (case validateAndConsumeToken now tokenHash keepToken st of
                    (Inr u, st') \<Rightarrow> (Inr (Response 200 JsonSuccess), st')
                  | (Inl err, st') \<Rightarrow> (Inr (validate_catch err), st'))))"

text \<open>
  \<^verbatim>\<open>fetch\<close>: \<open>Inl\<close> is an exception that leaves the handler uncaught, \<open>Inr\<close> the
  response. \<open>now\<close> is the \<^verbatim>\<open>Date.now()\<close> the Durable Object reads inside the
  transaction of this request.
\<close>

definition fetch :: "env \<Rightarrow> int \<Rightarrow> request \<Rightarrow> storage \<Rightarrow> (thrown + response) \<times> storage" where
  "fetch e now req st =
     (if req_method req = ''OPTIONS'' then (Inr (Response 200 NoBody), st)
      else if req_method req = ''POST'' \<and> req_pathname req = CHALLENGE_PATH
        then challenge_route e st
      else if req_method req = ''POST'' \<and> req_pathname req = REDEEM_PATH
        then redeem_route e now req st
      else if req_method req = ''POST'' \<and> req_pathname req = VALIDATE_PATH
        then validate_route e now req st
      else (Inr (Response 404 (Text ''Not Found'')), st))"

section \<open>Serial runs\<close>

text \<open>
  The Durable Object serves the storage calls of concurrent requests one after the other.
  A validate request makes one storage call, so any interleaving of validate requests is
  a list of them, each with the time the object reads while serving it. \<open>serve\<close> runs
  such a list and collects the outcomes.
\<close>

fun serve ::
  "env \<Rightarrow> (int \<times> request) list \<Rightarrow> storage \<Rightarrow> (thrown + response) list \<times> storage" where
  "serve e [] st = ([], st)"
| "serve e ((now, req) # reqs) st =
     (case fetch e now req st of
        (out, st') \<Rightarrow> (case serve e reqs st' of (outs, st'') \<Rightarrow> (out # outs, st'')))"

definition validate_request :: "string \<Rightarrow> bool option \<Rightarrow> request" where
  "validate_request tok keepToken =
     \<lparr>req_method = ''POST'', req_pathname = VALIDATE_PATH,
      req_json = Json (Some tok) None keepToken\<rparr>"

definition redeem_request :: "string \<Rightarrow> int list \<Rightarrow> request" where
  "redeem_request tok solutions =
     \<lparr>req_method = ''POST'', req_pathname = REDEEM_PATH,
      req_json = Json (Some tok) (Some solutions) None\<rparr>"

section \<open>Words of the specification and example inputs\<close>

text \<open>
  The two segments of a token as the specification names them, written without
  \<open>js_split\<close>: the text before the first \<^verbatim>\<open>:\<close>, and the text between the first and
  the second \<^verbatim>\<open>:\<close> (up to the end when there is no second one).
\<close>

definition segment1 :: "string \<Rightarrow> string" where
  "segment1 tok = takeWhile (\<lambda>x. x \<noteq> CHR '':'') tok"

definition segment2 :: "string \<Rightarrow> string" where
  "segment2 tok =
     takeWhile (\<lambda>x. x \<noteq> CHR '':'') (drop 1 (dropWhile (\<lambda>x. x \<noteq> CHR '':'') tok))"

text \<open>
  An environment for the examples: a digest that always returns the bytes \<^verbatim>\<open>0a ff\<close>, a
  verification that always succeeds with the token \<^verbatim>\<open>c:s\<close> expiring at 99, and no
  other caller.
\<close>

definition demo_env :: env where
  "demo_env =
     \<lparr>sha256 = (\<lambda>bs. [10, 255]),
      createChallenge = ((1, 2, 3), ''c'', 100),
      verifyChallengeSolution = (\<lambda>ch sols. RedeemResult True (Some ''c:s'') (Some 99)),
      interleaved = (\<lambda>st. st)\<rparr>"

section \<open>Basic facts about the store and the two transactions\<close>

lemma storage_get_put:
  "storage_get k' (storage_put k v st) = (if k' = k then Some v else storage_get k' st)"
  by (simp add: storage_get_def storage_put_def update_conv')

lemma storage_get_delete:
  "storage_get k' (storage_delete k st) = (if k' = k then None else storage_get k' st)"
  by (simp add: storage_get_def storage_delete_def delete_conv')

lemma storage_delete_filter:
  "storage_delete key st = st\<lparr>entries := filter (\<lambda>kv. fst kv \<noteq> key) (entries st)\<rparr>"
  by (simp add: storage_delete_def AList.delete_eq case_prod_unfold eq_commute)

text \<open>What each transaction does to the store, after commit or rollback.\<close>

lemma finalizeRedeem_cases:
  "finalizeRedeem now tok tokenHash tokenData st =
     (case getChallenge tok st of
        None \<Rightarrow> (Inl (Error ERR_NOT_FOUND), st)
      | Some existing \<Rightarrow>
          if expires existing < now then (Inl (Error ERR_EXPIRED), st)
          else (Inr (), storage_put (''token:'' @ tokenHash) tokenData
                          (storage_delete (''challenge:'' @ tok) st)))"
  by (simp add: finalizeRedeem_def finalizeRedeem_closure_def transaction_def getChallenge_def
      split: option.splits)

lemma validateAndConsumeToken_cases:
  "validateAndConsumeToken now tokenHash keepToken st =
     (case storage_get (''token:'' @ tokenHash) st of
        None \<Rightarrow> (Inl (Error ERR_NOT_FOUND), st)
      | Some tokenData \<Rightarrow>
          if expires tokenData < now then (Inl (Error ERR_EXPIRED), st)
          else if keepToken = Some True then (Inr (), st)
          else (Inr (), storage_delete (''token:'' @ tokenHash) st))"
  by (simp add: validateAndConsumeToken_def validateAndConsumeToken_closure_def transaction_def
      split: option.splits)

text \<open>
  A store holds one value per key. The empty store does, and the operations keep it so.
\<close>

lemma distinct_storage_put:
  "distinct (map fst (entries st)) \<Longrightarrow> distinct (map fst (entries (storage_put k v st)))"
  by (simp add: storage_put_def distinct_update)

lemma distinct_storage_delete:
  "distinct (map fst (entries st)) \<Longrightarrow> distinct (map fst (entries (storage_delete k st)))"
  by (simp add: storage_delete_def distinct_delete)

lemma distinct_finalizeRedeem:
  "distinct (map fst (entries st)) \<Longrightarrow>
   distinct (map fst (entries (snd (finalizeRedeem now tok tokenHash tokenData st))))"
  by (simp add: finalizeRedeem_cases distinct_storage_put distinct_storage_delete
      split: option.splits)

lemma distinct_validateAndConsumeToken:
  "distinct (map fst (entries st)) \<Longrightarrow>
   distinct (map fst (entries (snd (validateAndConsumeToken now tokenHash keepToken st))))"
  by (simp add: validateAndConsumeToken_cases distinct_storage_delete split: option.splits)

section \<open>The transactions\<close>

text \<open>
  Claim C1. A call of \<open>finalizeRedeem\<close> or \<open>validateAndConsumeToken\<close> that fails signals
  \<^verbatim>\<open>NOT_FOUND\<close> or \<^verbatim>\<open>EXPIRED\<close>, and the store after it, all challenge and token
  records and the alarm, is the store before it. The closure has deleted the expired
  record from its working copy before it throws; the throw aborts the transaction, which
  drops the copy.
\<close>

theorem no_partial_state:
  "(finalizeRedeem now tok tokenHash tokenData st = (Inl err, st') \<longrightarrow>
      st' = st \<and> (err = Error ERR_NOT_FOUND \<or> err = Error ERR_EXPIRED)) \<and>
   (validateAndConsumeToken now2 tokenHash2 keepToken st2 = (Inl err2, st2') \<longrightarrow>
      st2' = st2 \<and> (err2 = Error ERR_NOT_FOUND \<or> err2 = Error ERR_EXPIRED))"
  by (auto simp: finalizeRedeem_cases validateAndConsumeToken_cases
      split: option.splits if_splits)

theorem no_partial_state_witness:
  "finalizeRedeem 10 ''a'' ''h'' (StoredToken 99)
     \<lparr>entries = [(''challenge:a'', Challenge (1, 2, 3) ''a'' 5), (''token:k'', StoredToken 7)],
      alarm_time = None\<rparr> =
   (Inl (Error ERR_EXPIRED),
    \<lparr>entries = [(''challenge:a'', Challenge (1, 2, 3) ''a'' 5), (''token:k'', StoredToken 7)],
     alarm_time = None\<rparr>) \<and>
   validateAndConsumeToken 10 ''k'' None
     \<lparr>entries = [(''challenge:a'', Challenge (1, 2, 3) ''a'' 5), (''token:k'', StoredToken 7)],
      alarm_time = None\<rparr> =
   (Inl (Error ERR_EXPIRED),
    \<lparr>entries = [(''challenge:a'', Challenge (1, 2, 3) ''a'' 5), (''token:k'', StoredToken 7)],
     alarm_time = None\<rparr>)"
  using no_partial_state [of 10 "''a''" "''h''" "StoredToken 99"
      "\<lparr>entries = [(''challenge:a'', Challenge (1, 2, 3) ''a'' 5), (''token:k'', StoredToken 7)],
        alarm_time = None\<rparr>"
      "Error ERR_EXPIRED"
      "\<lparr>entries = [(''challenge:a'', Challenge (1, 2, 3) ''a'' 5), (''token:k'', StoredToken 7)],
        alarm_time = None\<rparr>"
      10 "''k''" None
      "\<lparr>entries = [(''challenge:a'', Challenge (1, 2, 3) ''a'' 5), (''token:k'', StoredToken 7)],
        alarm_time = None\<rparr>"
      "Error ERR_EXPIRED"
      "\<lparr>entries = [(''challenge:a'', Challenge (1, 2, 3) ''a'' 5), (''token:k'', StoredToken 7)],
        alarm_time = None\<rparr>"]
  by (simp add: finalizeRedeem_cases validateAndConsumeToken_cases getChallenge_def
      storage_get_def)

text \<open>
  Claim C3. \<open>finalizeRedeem\<close> signals \<^verbatim>\<open>NOT_FOUND\<close> when the store has no challenge
  under the id, and leaves the store as it is. When the challenge is there and not
  expired, the call succeeds, and the committed store is the old one with the challenge
  deleted and the token record put under \<^verbatim>\<open>token:<tokenHash>\<close> with the given expiry:
  afterwards the challenge is absent and the token record is the one given.
\<close>

theorem finalizeRedeem_spec:
  "(getChallenge tok st = None \<longrightarrow>
      finalizeRedeem now tok tokenHash (StoredToken e) st = (Inl (Error ERR_NOT_FOUND), st)) \<and>
   (getChallenge tok st = Some existing \<and> \<not> expires existing < now \<longrightarrow>
      finalizeRedeem now tok tokenHash (StoredToken e) st =
        (Inr (), storage_put (''token:'' @ tokenHash) (StoredToken e)
                   (storage_delete (''challenge:'' @ tok) st)) \<and>
      getChallenge tok (snd (finalizeRedeem now tok tokenHash (StoredToken e) st)) = None \<and>
      storage_get (''token:'' @ tokenHash)
        (snd (finalizeRedeem now tok tokenHash (StoredToken e) st)) = Some (StoredToken e))"
  by (simp add: finalizeRedeem_cases getChallenge_def storage_get_put storage_get_delete)

theorem finalizeRedeem_spec_witness:
  "finalizeRedeem 10 ''b'' ''h'' (StoredToken 99)
     \<lparr>entries = [(''challenge:a'', Challenge (1, 2, 3) ''a'' 50)], alarm_time = None\<rparr> =
   (Inl (Error ERR_NOT_FOUND),
    \<lparr>entries = [(''challenge:a'', Challenge (1, 2, 3) ''a'' 50)], alarm_time = None\<rparr>) \<and>
   finalizeRedeem 10 ''a'' ''h'' (StoredToken 99)
     \<lparr>entries = [(''challenge:a'', Challenge (1, 2, 3) ''a'' 50)], alarm_time = None\<rparr> =
   (Inr (), \<lparr>entries = [(''token:h'', StoredToken 99)], alarm_time = None\<rparr>)"
  using finalizeRedeem_spec [of "''b''"
      "\<lparr>entries = [(''challenge:a'', Challenge (1, 2, 3) ''a'' 50)], alarm_time = None\<rparr>"
      10 "''h''" 99 "Challenge (1, 2, 3) ''a'' 50"]
    finalizeRedeem_spec [of "''a''"
      "\<lparr>entries = [(''challenge:a'', Challenge (1, 2, 3) ''a'' 50)], alarm_time = None\<rparr>"
      10 "''h''" 99 "Challenge (1, 2, 3) ''a'' 50"]
  by (simp add: getChallenge_def storage_get_def storage_put_def storage_delete_def)

text \<open>
  Claim C4 says that a call which finds its record expired signals \<^verbatim>\<open>EXPIRED\<close> and
  leaves the record deleted. The closures do call \<^verbatim>\<open>txn.delete\<close> (``Clean up expired
  challenge''), but then throw inside the transaction, which rolls the deletion back: at
  time 10, with a challenge and a token that expired at 5, both calls signal
  \<^verbatim>\<open>EXPIRED\<close> and the record is still in the store.
\<close>

theorem expired_record_survives:
  "finalizeRedeem 10 ''a'' ''h'' (StoredToken 99)
     \<lparr>entries = [(''challenge:a'', Challenge (1, 2, 3) ''a'' 5)], alarm_time = None\<rparr> =
   (Inl (Error ERR_EXPIRED),
    \<lparr>entries = [(''challenge:a'', Challenge (1, 2, 3) ''a'' 5)], alarm_time = None\<rparr>) \<and>
   validateAndConsumeToken 10 ''h'' None
     \<lparr>entries = [(''token:h'', StoredToken 5)], alarm_time = None\<rparr> =
   (Inl (Error ERR_EXPIRED), \<lparr>entries = [(''token:h'', StoredToken 5)], alarm_time = None\<rparr>)"
  by (simp add: finalizeRedeem_cases validateAndConsumeToken_cases getChallenge_def
      storage_get_def)

text \<open>
  Claim C5 says that a record is valid only while the time is strictly before
  \<^verbatim>\<open>expires\<close>, so that a call at the very time \<^verbatim>\<open>expires\<close> signals \<^verbatim>\<open>EXPIRED\<close>. The
  code tests \<^verbatim>\<open>expires < now\<close>: at time 10 a challenge and a token that expire at 10 are
  both accepted.
\<close>

theorem valid_at_expiry_counterexample:
  "fst (finalizeRedeem 10 ''a'' ''h'' (StoredToken 99)
     \<lparr>entries = [(''challenge:a'', Challenge (1, 2, 3) ''a'' 10)], alarm_time = None\<rparr>) = Inr () \<and>
   fst (validateAndConsumeToken 10 ''h'' None
     \<lparr>entries = [(''token:h'', StoredToken 10)], alarm_time = None\<rparr>) = Inr ()"
  by (simp add: finalizeRedeem_cases validateAndConsumeToken_cases getChallenge_def
      storage_get_def)

text \<open>
  Claim C5, amended. For a record that is in the store, swept or not by the alarm before,
  \<open>finalizeRedeem\<close> and \<open>validateAndConsumeToken\<close> succeed exactly when the time is at most
  \<^verbatim>\<open>expires\<close>, and signal \<^verbatim>\<open>EXPIRED\<close> exactly when \<^verbatim>\<open>expires\<close> is strictly before the
  time; a record whose \<^verbatim>\<open>expires\<close> has passed is never accepted.
\<close>

theorem expiry_check:
  "(getChallenge tok st = Some existing \<longrightarrow>
      (fst (finalizeRedeem now tok tokenHash tokenData st) = Inr ()) = (now \<le> expires existing) \<and>
      (fst (finalizeRedeem now tok tokenHash tokenData st) = Inl (Error ERR_EXPIRED)) =
        (expires existing < now)) \<and>
   (storage_get (''token:'' @ tokenHash) st = Some rec \<longrightarrow>
      (fst (validateAndConsumeToken now tokenHash keepToken st) = Inr ()) = (now \<le> expires rec) \<and>
      (fst (validateAndConsumeToken now tokenHash keepToken st) = Inl (Error ERR_EXPIRED)) =
        (expires rec < now))"
  by (auto simp: finalizeRedeem_cases validateAndConsumeToken_cases)

theorem expiry_check_witness:
  "fst (finalizeRedeem 11 ''a'' ''h'' (StoredToken 99)
     \<lparr>entries = [(''challenge:a'', Challenge (1, 2, 3) ''a'' 10), (''token:h'', StoredToken 12)],
      alarm_time = None\<rparr>) = Inl (Error ERR_EXPIRED) \<and>
   fst (validateAndConsumeToken 11 ''h'' None
     \<lparr>entries = [(''challenge:a'', Challenge (1, 2, 3) ''a'' 10), (''token:h'', StoredToken 12)],
      alarm_time = None\<rparr>) = Inr ()"
  using expiry_check [of "''a''"
      "\<lparr>entries = [(''challenge:a'', Challenge (1, 2, 3) ''a'' 10), (''token:h'', StoredToken 12)],
        alarm_time = None\<rparr>"
      "Challenge (1, 2, 3) ''a'' 10" 11 "''h''" "StoredToken 99" "StoredToken 12" None]
  by (simp add: getChallenge_def storage_get_def)

section \<open>The validate route\<close>

lemma hashToken_Inr_nonempty: "hashToken d tok = Inr h \<Longrightarrow> tok \<noteq> []"
  by (auto simp: hashToken_def)

lemma fetch_validate_request:
  "fetch e now (validate_request tok keepToken) st =
     (if tok = [] then (Inr (Response 400 (JsonFailure ''Missing token'')), st)
      else (case hashToken (sha256 e) tok of
              Inl err \<Rightarrow> (Inl err, st)
            | Inr tokenHash \<Rightarrow>
                (case validateAndConsumeToken now tokenHash keepToken st of
                   (Inr u, st') \<Rightarrow> (Inr (Response 200 JsonSuccess), st')
                 | (Inl err, st') \<Rightarrow> (Inr (validate_catch err), st'))))"
  by (simp add: fetch_def validate_request_def validate_route_def VALIDATE_PATH_def
      CHALLENGE_PATH_def REDEEM_PATH_def API_BASE_def)

text \<open>Validating with retention any number of times, and validating a token that is gone.\<close>

lemma serve_keep:
  assumes "hashToken (sha256 e) tok = Inr h"
    and "storage_get (''token:'' @ h) st = Some tokenData"
    and "\<forall>t \<in> set ts. \<not> expires tokenData < t"
  shows "serve e (map (\<lambda>t. (t, validate_request tok (Some True))) ts) st =
           (replicate (length ts) (Inr (Response 200 JsonSuccess)), st)"
  using assms(3)
proof (induction ts)
  case Nil
  show ?case by simp
next
  case (Cons t ts)
  have "fetch e t (validate_request tok (Some True)) st = (Inr (Response 200 JsonSuccess), st)"
    using assms(1,2) Cons.prems hashToken_Inr_nonempty [OF assms(1)]
    by (simp add: fetch_validate_request validateAndConsumeToken_cases)
  with Cons show ?case by simp
qed

lemma serve_absent:
  assumes "hashToken (sha256 e) tok = Inr h"
    and "storage_get (''token:'' @ h) st = None"
  shows "serve e (map (\<lambda>t. (t, validate_request tok keepToken)) ts) st =
           (replicate (length ts) (Inr (Response 404 (JsonFailure ''Token not found''))), st)"
proof (induction ts)
  case Nil
  show ?case by simp
next
  case (Cons t ts)
  have "fetch e t (validate_request tok keepToken) st =
          (Inr (Response 404 (JsonFailure ''Token not found'')), st)"
    using assms hashToken_Inr_nonempty [OF assms(1)]
    by (simp add: fetch_validate_request validateAndConsumeToken_cases validate_catch_def)
  with Cons show ?case by simp
qed

lemma hex_byte_10: "hex_byte 10 = ''0a''"
  by (simp add: hex_byte_def padStart_def toString16.simps hex_digit_def)

lemma hex_byte_255: "hex_byte 255 = ''ff''"
  by (simp add: hex_byte_def padStart_def toString16.simps hex_digit_def)

lemma demo_hash_ab: "hashToken (sha256 demo_env) ''a:b'' = Inr ''a:0aff''"
  by (simp add: hashToken_def demo_env_def hex_byte_10 hex_byte_255)

lemma demo_hash_cs: "hashToken (sha256 demo_env) ''c:s'' = Inr ''c:0aff''"
  by (simp add: hashToken_def demo_env_def hex_byte_10 hex_byte_255)

text \<open>
  Claim C2 says that of N validate requests without retention on one live token, one
  succeeds and each other reports ``already consumed'' (409). The second of two such
  requests finds no record, the transaction throws \<^verbatim>\<open>NOT_FOUND\<close>, and the handler maps
  that to 404 ``Token not found''.
\<close>

theorem validate_twice_counterexample:
  "fst (serve demo_env
     [(1, validate_request ''a:b'' (Some False)), (2, validate_request ''a:b'' (Some False))]
     \<lparr>entries = [(''token:a:0aff'', StoredToken 5)], alarm_time = None\<rparr>) =
   [Inr (Response 200 JsonSuccess), Inr (Response 404 (JsonFailure ''Token not found''))]"
  by (simp add: fetch_validate_request demo_hash_ab validateAndConsumeToken_cases
      storage_get_def storage_delete_def validate_catch_def)

text \<open>
  Claim C2, amended. Let the token hash to a record that is in the store and not expired
  at the time of the first request. Of any number of validate requests on it without
  retention (\<^verbatim>\<open>keepToken\<close> false or missing), served one after the other at any later
  times, the first returns \<^verbatim>\<open>{success: true}\<close> and every other one returns 404
  ``Token not found''; the record is deleted by the first and stays deleted.
\<close>

theorem at_most_once_consumption:
  assumes "hashToken (sha256 e) tok = Inr h"
    and "storage_get (''token:'' @ h) st = Some tokenData"
    and "\<not> expires tokenData < now"
    and "keepToken \<noteq> Some True"
  shows "serve e ((now, validate_request tok keepToken) #
                  map (\<lambda>t. (t, validate_request tok keepToken)) ts) st =
           (Inr (Response 200 JsonSuccess) #
              replicate (length ts) (Inr (Response 404 (JsonFailure ''Token not found''))),
            storage_delete (''token:'' @ h) st)"
proof -
  have first: "fetch e now (validate_request tok keepToken) st =
          (Inr (Response 200 JsonSuccess), storage_delete (''token:'' @ h) st)"
    using assms hashToken_Inr_nonempty [OF assms(1)]
    by (simp add: fetch_validate_request validateAndConsumeToken_cases)
  have gone: "storage_get (''token:'' @ h) (storage_delete (''token:'' @ h) st) = None"
    by (simp add: storage_get_delete)
  show ?thesis
    using first serve_absent [OF assms(1) gone, of keepToken ts] by simp
qed

theorem at_most_once_consumption_witness:
  "serve demo_env
     [(1, validate_request ''a:b'' (Some False)), (2, validate_request ''a:b'' (Some False)),
      (9, validate_request ''a:b'' (Some False))]
     \<lparr>entries = [(''token:a:0aff'', StoredToken 5)], alarm_time = None\<rparr> =
   ([Inr (Response 200 JsonSuccess), Inr (Response 404 (JsonFailure ''Token not found'')),
     Inr (Response 404 (JsonFailure ''Token not found''))],
    \<lparr>entries = [], alarm_time = None\<rparr>)"
  using at_most_once_consumption [of demo_env "''a:b''" "''a:0aff''"
      "\<lparr>entries = [(''token:a:0aff'', StoredToken 5)], alarm_time = None\<rparr>"
      "StoredToken 5" 1 "Some False" "[2, 9]"]
  by (simp add: demo_hash_ab storage_get_def storage_delete_def)

text \<open>
  Claim C7 says that every failure of a request to \<^verbatim>\<open>/api/validate\<close> comes back as a
  JSON body with \<^verbatim>\<open>success: false\<close> and status 400, 404, 409 or 410, and that no error
  escapes the handler. \<^verbatim>\<open>hashToken\<close> is awaited before the \<^verbatim>\<open>try\<close>: for the token
  \<^verbatim>\<open>abc\<close>, which has no \<^verbatim>\<open>:\<close>, it throws ``Invalid token format'' and \<open>fetch\<close> ends
  with that exception instead of a response.
\<close>

theorem validate_malformed_token_uncaught:
  "fetch e now (validate_request ''abc'' keepToken) st =
     (Inl (Error ''Invalid token format''), st)"
  by (simp add: fetch_validate_request hashToken_def)

text \<open>
  Claim C8. Let the token hash to a record that is in the store, and let \<open>ts\<close> be times
  at none of which the record is expired. Then \<open>validateAndConsumeToken\<close> with
  \<^verbatim>\<open>keepToken\<close> true succeeds at each of them and returns the store unchanged, and the
  validate requests with \<^verbatim>\<open>keepToken: true\<close> served at these times one after the other
  all return \<^verbatim>\<open>{success: true}\<close> and leave the store as it was, the record included.
\<close>

theorem idempotent_retention:
  assumes "hashToken (sha256 e) tok = Inr h"
    and "storage_get (''token:'' @ h) st = Some tokenData"
    and "\<forall>t \<in> set ts. \<not> expires tokenData < t"
  shows "(\<forall>t \<in> set ts. validateAndConsumeToken t h (Some True) st = (Inr (), st)) \<and>
         serve e (map (\<lambda>t. (t, validate_request tok (Some True))) ts) st =
           (replicate (length ts) (Inr (Response 200 JsonSuccess)), st)"
  using assms serve_keep [OF assms] by (simp add: validateAndConsumeToken_cases)

theorem idempotent_retention_witness:
  "serve demo_env
     [(1, validate_request ''a:b'' (Some True)), (5, validate_request ''a:b'' (Some True))]
     \<lparr>entries = [(''token:a:0aff'', StoredToken 5)], alarm_time = None\<rparr> =
   ([Inr (Response 200 JsonSuccess), Inr (Response 200 JsonSuccess)],
    \<lparr>entries = [(''token:a:0aff'', StoredToken 5)], alarm_time = None\<rparr>)"
  using idempotent_retention [of demo_env "''a:b''" "''a:0aff''"
      "\<lparr>entries = [(''token:a:0aff'', StoredToken 5)], alarm_time = None\<rparr>"
      "StoredToken 5" "[1, 5]"]
  by (simp add: demo_hash_ab storage_get_def)

section \<open>The redeem route\<close>

lemma redeem_catch_cases:
  "redeem_catch err =
     (if err = Error ERR_EXPIRED then Response 410 (JsonFailure ''Challenge expired'')
      else Response 409 (JsonFailure ''Challenge already redeemed''))"
  by (simp add: redeem_catch_def split: thrown.splits)

lemma fetch_redeem_request:
  "fetch e now (redeem_request tok solutions) st =
     (if tok = [] then (Inr (Response 400 (JsonFailure ''Missing token or solutions'')), st)
      else (case getChallenge tok st of
              None \<Rightarrow> (Inr (Response 404 (JsonFailure ''Challenge not found'')), st)
            | Some ch \<Rightarrow>
                redeem_verified e now tok (verifyChallengeSolution e ch solutions) st))"
  by (simp add: fetch_def redeem_request_def redeem_route_def REDEEM_PATH_def
      CHALLENGE_PATH_def API_BASE_def)

text \<open>
  Claim C6. Take a redeem request whose challenge was found by \<^verbatim>\<open>getChallenge\<close> and
  whose solution verified, and let \<open>finalizeRedeem\<close>, run on the store as the other
  callers have left it in between, fail with \<open>err\<close>. Then the response is 410
  ``Challenge expired'' when \<open>err\<close> is \<^verbatim>\<open>EXPIRED\<close> and 409 ``Challenge already
  redeemed'' otherwise, \<^verbatim>\<open>NOT_FOUND\<close> included. The \<^verbatim>\<open>catch\<close> block maps every thrown
  value \<open>other\<close> in this way, whatever it is.
\<close>

theorem redeem_failure_mapping:
  assumes "tok \<noteq> []"
    and "getChallenge tok st = Some ch"
    and "verifyChallengeSolution e ch solutions = RedeemResult True (Some rtoken) (Some rexpires)"
    and "rexpires \<noteq> 0"
    and "hashToken (sha256 e) rtoken = Inr tokenHash"
    and "finalizeRedeem now tok tokenHash (StoredToken rexpires) (interleaved e st) = (Inl err, st')"
  shows "fetch e now (redeem_request tok solutions) st =
           (Inr (if err = Error ERR_EXPIRED
                 then Response 410 (JsonFailure ''Challenge expired'')
                 else Response 409 (JsonFailure ''Challenge already redeemed'')), st') \<and>
         redeem_catch other =
           (if other = Error ERR_EXPIRED
            then Response 410 (JsonFailure ''Challenge expired'')
            else Response 409 (JsonFailure ''Challenge already redeemed''))"
proof -
  have "redeem_verified e now tok (RedeemResult True (Some rtoken) (Some rexpires)) st =
          (Inr (redeem_catch err), st')"
    using assms(4,5,6) hashToken_Inr_nonempty [OF assms(5)]
    by (simp add: redeem_verified_def)
  then show ?thesis
    using assms(1,2,3) by (simp add: fetch_redeem_request redeem_catch_cases)
qed

theorem redeem_failure_mapping_witness:
  "fetch (demo_env\<lparr>interleaved := storage_delete ''challenge:c''\<rparr>) 1 (redeem_request ''c'' [7])
     \<lparr>entries = [(''challenge:c'', Challenge (1, 2, 3) ''c'' 10)], alarm_time = None\<rparr> =
   (Inr (Response 409 (JsonFailure ''Challenge already redeemed'')),
    \<lparr>entries = [], alarm_time = None\<rparr>) \<and>
   fetch demo_env 11 (redeem_request ''c'' [7])
     \<lparr>entries = [(''challenge:c'', Challenge (1, 2, 3) ''c'' 10)], alarm_time = None\<rparr> =
   (Inr (Response 410 (JsonFailure ''Challenge expired'')),
    \<lparr>entries = [(''challenge:c'', Challenge (1, 2, 3) ''c'' 10)], alarm_time = None\<rparr>) \<and>
   redeem_catch NonError = Response 409 (JsonFailure ''Challenge already redeemed'')"
  using redeem_failure_mapping [of "''c''"
      "\<lparr>entries = [(''challenge:c'', Challenge (1, 2, 3) ''c'' 10)], alarm_time = None\<rparr>"
      "Challenge (1, 2, 3) ''c'' 10" "demo_env\<lparr>interleaved := storage_delete ''challenge:c''\<rparr>"
      "[7]" "''c:s''" 99 "''c:0aff''" 1 "Error ERR_NOT_FOUND"
      "\<lparr>entries = [], alarm_time = None\<rparr>" NonError]
    redeem_failure_mapping [of "''c''"
      "\<lparr>entries = [(''challenge:c'', Challenge (1, 2, 3) ''c'' 10)], alarm_time = None\<rparr>"
      "Challenge (1, 2, 3) ''c'' 10" demo_env
      "[7]" "''c:s''" 99 "''c:0aff''" 11 "Error ERR_EXPIRED"
      "\<lparr>entries = [(''challenge:c'', Challenge (1, 2, 3) ''c'' 10)], alarm_time = None\<rparr>" NonError]
    demo_hash_cs
  by (simp add: demo_env_def finalizeRedeem_cases getChallenge_def storage_get_def
      storage_delete_def ERR_EXPIRED_def ERR_NOT_FOUND_def)

section \<open>Properties of the cleanup alarm\<close>

text \<open>
  One loop deletes some of the expired keys of its listing: all of them when no storage
  call raises, those before the raise otherwise.
\<close>

lemma sweep_result:
  "\<exists>D. D \<subseteq> {fst kv |kv. kv \<in> set listed \<and> expires (snd kv) < now} \<and>
       (faults = None \<longrightarrow>
          D = {fst kv |kv. kv \<in> set listed \<and> expires (snd kv) < now} \<and>
          fst (sweep now listed faults st) = Inr None) \<and>
       snd (sweep now listed faults st) = st\<lparr>entries := filter (\<lambda>kv. fst kv \<notin> D) (entries st)\<rparr>"
proof (induction listed arbitrary: faults st)
  case Nil
  show ?case by (rule exI [of _ "{}"]) simp
next
  case (Cons kv listed)
  obtain key v where kv: "kv = (key, v)" by (cases kv)
  show ?case
  proof (cases "expires v < now")
    case False
    from Cons.IH [of faults st] obtain D where
      "D \<subseteq> {fst kv |kv. kv \<in> set listed \<and> expires (snd kv) < now}"
      "faults = None \<longrightarrow>
          D = {fst kv |kv. kv \<in> set listed \<and> expires (snd kv) < now} \<and>
          fst (sweep now listed faults st) = Inr None"
      "snd (sweep now listed faults st) = st\<lparr>entries := filter (\<lambda>kv. fst kv \<notin> D) (entries st)\<rparr>"
      by blast
    with False kv show ?thesis
      by (intro exI [of _ D]) auto
  next
    case True
    show ?thesis
    proof (cases "storage_call faults")
      case None
      then obtain n where "faults = Some n" by (cases faults) auto
      with None True kv show ?thesis
        by (intro exI [of _ "{}"]) simp
    next
      case (Some faults')
      from Cons.IH [of faults' "storage_delete key st"] obtain D where D:
        "D \<subseteq> {fst kv |kv. kv \<in> set listed \<and> expires (snd kv) < now}"
        "faults' = None \<longrightarrow>
          D = {fst kv |kv. kv \<in> set listed \<and> expires (snd kv) < now} \<and>
          fst (sweep now listed faults' (storage_delete key st)) = Inr None"
        "snd (sweep now listed faults' (storage_delete key st)) =
           (storage_delete key st)\<lparr>entries := filter (\<lambda>kv. fst kv \<notin> D) (entries (storage_delete key st))\<rparr>"
        by blast
      have none: "faults = None \<Longrightarrow> faults' = None"
        using Some by (cases faults) auto
      have step: "sweep now (kv # listed) faults st = sweep now listed faults' (storage_delete key st)"
        using True Some kv by simp
      have "snd (sweep now (kv # listed) faults st) =
              st\<lparr>entries := filter (\<lambda>kv. fst kv \<notin> insert key D) (entries st)\<rparr>"
        using D(3) by (simp add: step storage_delete_filter conj_commute)
      moreover have "insert key D \<subseteq> {fst kv' |kv'. kv' \<in> set (kv # listed) \<and> expires (snd kv') < now}"
        using D(1) True kv by auto
      moreover have "faults = None \<longrightarrow>
          insert key D = {fst kv' |kv'. kv' \<in> set (kv # listed) \<and> expires (snd kv') < now} \<and>
          fst (sweep now (kv # listed) faults st) = Inr None"
        using D(2) none True kv step by auto
      ultimately show ?thesis by blast
    qed
  qed
qed


lemma alarm_result:
  "\<exists>D. D \<subseteq> {fst kv |kv. kv \<in> set (entries st) \<and>
                (prefix ''challenge:'' (fst kv) \<or> prefix ''token:'' (fst kv)) \<and>
                expires (snd kv) < now} \<and>
       (faults = None \<longrightarrow>
          D = {fst kv |kv. kv \<in> set (entries st) \<and>
                (prefix ''challenge:'' (fst kv) \<or> prefix ''token:'' (fst kv)) \<and>
                expires (snd kv) < now}) \<and>
       alarm now now' faults st =
         st\<lparr>entries := filter (\<lambda>kv. fst kv \<notin> D) (entries st),
            alarm_time := Some (now' + CLEANUP_INTERVAL_MS)\<rparr>"
  (is "\<exists>D. D \<subseteq> ?F \<and> (faults = None \<longrightarrow> D = ?F) \<and> ?R D")
proof (cases "storage_call faults")
  case None
  then obtain n where "faults = Some n" by (cases faults) auto
  with None have "{} \<subseteq> ?F \<and> (faults = None \<longrightarrow> {} = ?F) \<and> ?R {}"
    by (simp add: alarm_def alarm_try_def setAlarm_def)
  then show ?thesis by (intro exI [of _ "{}"])
next
  case (Some faults1)
  have f1: "faults = None \<Longrightarrow> faults1 = None"
    using Some by (cases faults) auto
  let ?L1 = "storage_list ''challenge:'' st"
  obtain D1 where D1:
    "D1 \<subseteq> {fst kv |kv. kv \<in> set ?L1 \<and> expires (snd kv) < now}"
    "faults1 = None \<longrightarrow>
       D1 = {fst kv |kv. kv \<in> set ?L1 \<and> expires (snd kv) < now} \<and>
       fst (sweep now ?L1 faults1 st) = Inr None"
    "snd (sweep now ?L1 faults1 st) = st\<lparr>entries := filter (\<lambda>kv. fst kv \<notin> D1) (entries st)\<rparr>"
    using sweep_result [of ?L1 now faults1 st] by blast
  define st1 where "st1 = st\<lparr>entries := filter (\<lambda>kv. fst kv \<notin> D1) (entries st)\<rparr>"
  have D1F: "D1 \<subseteq> ?F"
    using D1(1) by (auto simp: storage_list_def)
  show ?thesis
  proof (cases "fst (sweep now ?L1 faults1 st)")
    case (Inl err)
    then have "sweep now ?L1 faults1 st = (Inl err, st1)"
      using D1(3) by (simp add: st1_def prod_eq_iff)
    then have "?R D1"
      using Some by (simp add: alarm_def alarm_try_def setAlarm_def st1_def)
    moreover have "faults \<noteq> None"
    proof
      assume "faults = None"
      then have "faults1 = None" by (rule f1)
      with D1(2) Inl show False by simp
    qed
    ultimately have "D1 \<subseteq> ?F \<and> (faults = None \<longrightarrow> D1 = ?F) \<and> ?R D1"
      using D1F by (simp del: not_None_eq)
    then show ?thesis by (intro exI [of _ D1])
  next
    case (Inr faults2)
    then have sw1: "sweep now ?L1 faults1 st = (Inr faults2, st1)"
      using D1(3) by (simp add: st1_def prod_eq_iff)
    have f2: "faults = None \<Longrightarrow> faults2 = None"
    proof -
      assume "faults = None"
      then have "faults1 = None" by (rule f1)
      with D1(2) Inr show "faults2 = None" by simp
    qed
    show ?thesis
    proof (cases "storage_call faults2")
      case None
      then obtain n where "faults2 = Some n" by (cases faults2) auto
      then have "faults \<noteq> None" using f2 by (cases faults) auto
      moreover have "?R D1"
        using Some sw1 None by (simp add: alarm_def alarm_try_def setAlarm_def st1_def)
      ultimately have "D1 \<subseteq> ?F \<and> (faults = None \<longrightarrow> D1 = ?F) \<and> ?R D1"
        using D1F by (simp del: not_None_eq)
      then show ?thesis by (intro exI [of _ D1])
    next
      case (Some faults3)
      have f3: "faults = None \<Longrightarrow> faults3 = None"
        using Some f2 by (cases faults2) auto
      let ?L2 = "storage_list ''token:'' st1"
      obtain D2 where D2:
        "D2 \<subseteq> {fst kv |kv. kv \<in> set ?L2 \<and> expires (snd kv) < now}"
        "faults3 = None \<longrightarrow>
           D2 = {fst kv |kv. kv \<in> set ?L2 \<and> expires (snd kv) < now} \<and>
           fst (sweep now ?L2 faults3 st1) = Inr None"
        "snd (sweep now ?L2 faults3 st1) =
           st1\<lparr>entries := filter (\<lambda>kv. fst kv \<notin> D2) (entries st1)\<rparr>"
        using sweep_result [of ?L2 now faults3 st1] by blast
      have D2F: "D2 \<subseteq> ?F"
        using D2(1) by (auto simp: storage_list_def st1_def)
      have st2: "st1\<lparr>entries := filter (\<lambda>kv. fst kv \<notin> D2) (entries st1)\<rparr> =
                 st\<lparr>entries := filter (\<lambda>kv. fst kv \<notin> D1 \<union> D2) (entries st)\<rparr>"
        by (simp add: st1_def conj_commute)
      have "alarm now now' faults st =
              setAlarm (now' + CLEANUP_INTERVAL_MS) (snd (sweep now ?L2 faults3 st1))"
        using \<open>storage_call faults = Some faults1\<close> sw1 Some
        by (simp add: alarm_def alarm_try_def split: prod.splits sum.splits)
      then have R: "?R (D1 \<union> D2)"
        by (simp add: D2(3) st2 setAlarm_def)
      have full: "faults = None \<longrightarrow> D1 \<union> D2 = ?F"
      proof
        assume none: "faults = None"
        have e1: "D1 = {fst kv |kv. kv \<in> set ?L1 \<and> expires (snd kv) < now}"
          using D1(2) f1 [OF none] by simp
        have e2: "D2 = {fst kv |kv. kv \<in> set ?L2 \<and> expires (snd kv) < now}"
          using D2(2) f3 [OF none] by simp
        have "?F \<subseteq> D1 \<union> D2"
        proof
          fix k assume "k \<in> ?F"
          then obtain kv where kv: "k = fst kv" "kv \<in> set (entries st)"
            "prefix ''challenge:'' (fst kv) \<or> prefix ''token:'' (fst kv)" "expires (snd kv) < now"
            by blast
          show "k \<in> D1 \<union> D2"
          proof (cases "k \<in> D1")
            case True
            then show ?thesis by simp
          next
            case False
            with kv have "\<not> prefix ''challenge:'' (fst kv)"
              by (auto simp: e1 storage_list_def)
            with kv False have "kv \<in> set ?L2"
              by (auto simp: storage_list_def st1_def)
            with kv have "k \<in> D2"
              unfolding e2 by blast
            then show ?thesis by simp
          qed
        qed
        moreover have "D1 \<union> D2 \<subseteq> ?F"
          using D1F D2F by (rule Un_least)
        ultimately show "D1 \<union> D2 = ?F" by (rule subset_antisym [rotated])
      qed
      have sub: "D1 \<union> D2 \<subseteq> ?F"
        using D1F D2F by (rule Un_least)
      from sub full R
      have "D1 \<union> D2 \<subseteq> ?F \<and> (faults = None \<longrightarrow> D1 \<union> D2 = ?F) \<and> ?R (D1 \<union> D2)"
        by (intro conjI)
      then show ?thesis by (intro exI [of _ "D1 \<union> D2"])
    qed
  qed
qed


lemma map_of_filter_keys:
  "map_of (filter (\<lambda>kv. fst kv \<notin> D) xs) k = (if k \<in> D then None else map_of xs k)"
  by (induction xs) auto

lemma distinct_alarm:
  assumes "distinct (map fst (entries st))"
  shows "distinct (map fst (entries (alarm now now' faults st)))"
proof -
  from alarm_result [of st now faults now'] obtain D where
    "entries (alarm now now' faults st) = filter (\<lambda>kv. fst kv \<notin> D) (entries st)"
    by force
  with assms show ?thesis
    by (simp add: distinct_map_filter)
qed

text \<open>
  Claim C9. Let the store hold one value per key. A run of \<open>alarm\<close>, whichever storage
  call raises or none, sets the alarm to the time read when rescheduling plus
  \<open>CLEANUP_INTERVAL_MS\<close>, leaves every record in place that is not expired at the time
  \<open>now\<close> of the sweep, and creates no record. When no storage call raises, the records
  left are exactly those of the store before that are not both under \<^verbatim>\<open>challenge:\<close> or
  \<^verbatim>\<open>token:\<close> and of \<^verbatim>\<open>expires\<close> strictly before \<open>now\<close>.
\<close>

theorem alarm_sweeps_and_reschedules:
  assumes "distinct (map fst (entries st))"
  shows "alarm_time (alarm now now' faults st) = Some (now' + CLEANUP_INTERVAL_MS) \<and>
         (storage_get key st = Some v \<and> \<not> expires v < now \<longrightarrow>
            storage_get key (alarm now now' faults st) = Some v) \<and>
         (storage_get key st = None \<longrightarrow> storage_get key (alarm now now' faults st) = None) \<and>
         entries (alarm now now' None st) =
           filter (\<lambda>kv. \<not> ((prefix ''challenge:'' (fst kv) \<or> prefix ''token:'' (fst kv)) \<and>
                              expires (snd kv) < now))
             (entries st)"
proof -
  let ?F = "{fst kv |kv. kv \<in> set (entries st) \<and>
                (prefix ''challenge:'' (fst kv) \<or> prefix ''token:'' (fst kv)) \<and>
                expires (snd kv) < now}"
  have unique: "snd kv = w" if "kv \<in> set (entries st)" "map_of (entries st) (fst kv) = Some w" for kv w
  proof -
    from that(2) have "(fst kv, w) \<in> set (entries st)" by (rule map_of_SomeD)
    moreover from that(1) have "(fst kv, snd kv) \<in> set (entries st)" by simp
    ultimately show ?thesis by (rule eq_key_imp_eq_value [OF assms, symmetric])
  qed
  from alarm_result [of st now faults now'] obtain D where
    "D \<subseteq> ?F \<and> (faults = None \<longrightarrow> D = ?F) \<and>
     alarm now now' faults st =
         st\<lparr>entries := filter (\<lambda>kv. fst kv \<notin> D) (entries st),
            alarm_time := Some (now' + CLEANUP_INTERVAL_MS)\<rparr>" ..
  then have D: "D \<subseteq> ?F"
    and res: "alarm now now' faults st =
         st\<lparr>entries := filter (\<lambda>kv. fst kv \<notin> D) (entries st),
            alarm_time := Some (now' + CLEANUP_INTERVAL_MS)\<rparr>"
    by (rule conjunct1, rule conjunct2 [THEN conjunct2])
  have time: "alarm_time (alarm now now' faults st) = Some (now' + CLEANUP_INTERVAL_MS)"
    by (simp add: res)
  have get: "storage_get key (alarm now now' faults st) =
               (if key \<in> D then None else storage_get key st)"
    by (simp add: res storage_get_def map_of_filter_keys)
  have kept: "storage_get key st = Some v \<and> \<not> expires v < now \<longrightarrow>
            storage_get key (alarm now now' faults st) = Some v"
  proof
    assume a: "storage_get key st = Some v \<and> \<not> expires v < now"
    have "key \<notin> D"
    proof
      assume "key \<in> D"
      with D obtain kv where kv: "key = fst kv" "kv \<in> set (entries st)" "expires (snd kv) < now"
        by blast
      with a have "snd kv = v"
        by (intro unique) (simp_all add: storage_get_def)
      with kv a show False by simp
    qed
    with a show "storage_get key (alarm now now' faults st) = Some v"
      by (simp add: get)
  qed
  have absent: "storage_get key st = None \<longrightarrow> storage_get key (alarm now now' faults st) = None"
    by (simp add: get)
  from alarm_result [of st now None now'] obtain D0 where
    "D0 \<subseteq> ?F \<and> (None = (None :: nat option) \<longrightarrow> D0 = ?F) \<and>
     alarm now now' None st =
         st\<lparr>entries := filter (\<lambda>kv. fst kv \<notin> D0) (entries st),
            alarm_time := Some (now' + CLEANUP_INTERVAL_MS)\<rparr>" ..
  then have "D0 = ?F"
    and "alarm now now' None st =
         st\<lparr>entries := filter (\<lambda>kv. fst kv \<notin> D0) (entries st),
            alarm_time := Some (now' + CLEANUP_INTERVAL_MS)\<rparr>"
    by (rule conjunct2 [THEN conjunct1, THEN mp, OF _ refl], rule conjunct2 [THEN conjunct2])
  then have "alarm now now' None st =
         st\<lparr>entries := filter (\<lambda>kv. fst kv \<notin> ?F) (entries st),
            alarm_time := Some (now' + CLEANUP_INTERVAL_MS)\<rparr>"
    by (simp only:)
  then have "entries (alarm now now' None st) = filter (\<lambda>kv. fst kv \<notin> ?F) (entries st)"
    by simp
  also have "\<dots> = filter (\<lambda>kv. \<not> ((prefix ''challenge:'' (fst kv) \<or> prefix ''token:'' (fst kv)) \<and>
                              expires (snd kv) < now)) (entries st)"
  proof (rule filter_cong [OF refl])
    fix kv assume mem: "kv \<in> set (entries st)"
    have same: "kv' = kv" if "kv' \<in> set (entries st)" "fst kv' = fst kv" for kv'
    proof -
      have "(fst kv', snd kv') \<in> set (entries st)"
        using that(1) by simp
      then have "(fst kv, snd kv') \<in> set (entries st)"
        by (simp only: that(2))
      moreover from mem have "(fst kv, snd kv) \<in> set (entries st)"
        by simp
      ultimately have "snd kv' = snd kv"
        by (rule eq_key_imp_eq_value [OF assms])
      with that(2) show ?thesis by (simp add: prod_eq_iff)
    qed
    have "fst kv \<in> ?F \<longleftrightarrow>
          (prefix ''challenge:'' (fst kv) \<or> prefix ''token:'' (fst kv)) \<and> expires (snd kv) < now"
    proof
      assume "fst kv \<in> ?F"
      then obtain kv' where kv': "fst kv = fst kv'" "kv' \<in> set (entries st)"
        "prefix ''challenge:'' (fst kv') \<or> prefix ''token:'' (fst kv')" "expires (snd kv') < now"
        by blast
      then have "kv' = kv" by (intro same) simp_all
      with kv' show "(prefix ''challenge:'' (fst kv) \<or> prefix ''token:'' (fst kv)) \<and>
                     expires (snd kv) < now"
        by simp
    next
      assume "(prefix ''challenge:'' (fst kv) \<or> prefix ''token:'' (fst kv)) \<and> expires (snd kv) < now"
      with mem show "fst kv \<in> ?F" by blast
    qed
    then show "(fst kv \<notin> ?F) =
          (\<not> ((prefix ''challenge:'' (fst kv) \<or> prefix ''token:'' (fst kv)) \<and> expires (snd kv) < now))"
      by (simp only:)
  qed
  finally show ?thesis
    using time kept absent by simp
qed

theorem alarm_sweeps_and_reschedules_witness:
  "alarm 10 11 None
     \<lparr>entries = [(''token:a:0aff'', StoredToken 5), (''challenge:a'', Challenge (1, 2, 3) ''a'' 10),
                 (''challenge:b'', Challenge (1, 2, 3) ''b'' 9), (''token:x'', StoredToken 15)],
      alarm_time = None\<rparr> =
   \<lparr>entries = [(''challenge:a'', Challenge (1, 2, 3) ''a'' 10), (''token:x'', StoredToken 15)],
    alarm_time = Some 60011\<rparr> \<and>
   alarm_time (alarm 10 11 (Some 1)
     \<lparr>entries = [(''token:a:0aff'', StoredToken 5), (''challenge:a'', Challenge (1, 2, 3) ''a'' 10),
                 (''challenge:b'', Challenge (1, 2, 3) ''b'' 9), (''token:x'', StoredToken 15)],
      alarm_time = None\<rparr>) = Some 60011 \<and>
   storage_get ''token:x'' (alarm 10 11 (Some 1)
     \<lparr>entries = [(''token:a:0aff'', StoredToken 5), (''challenge:a'', Challenge (1, 2, 3) ''a'' 10),
                 (''challenge:b'', Challenge (1, 2, 3) ''b'' 9), (''token:x'', StoredToken 15)],
      alarm_time = None\<rparr>) = Some (StoredToken 15)"
  using alarm_sweeps_and_reschedules [of
     "\<lparr>entries = [(''token:a:0aff'', StoredToken 5), (''challenge:a'', Challenge (1, 2, 3) ''a'' 10),
                 (''challenge:b'', Challenge (1, 2, 3) ''b'' 9), (''token:x'', StoredToken 15)],
      alarm_time = None\<rparr>" 10 11 None "''token:x''" "StoredToken 15"]
    alarm_sweeps_and_reschedules [of
     "\<lparr>entries = [(''token:a:0aff'', StoredToken 5), (''challenge:a'', Challenge (1, 2, 3) ''a'' 10),
                 (''challenge:b'', Challenge (1, 2, 3) ''b'' 9), (''token:x'', StoredToken 15)],
      alarm_time = None\<rparr>" 10 11 "Some 1" "''token:x''" "StoredToken 15"]
  by (simp add: storage_get_def CLEANUP_INTERVAL_MS_def storage.equality)

section \<open>Properties of \<^verbatim>\<open>hashToken\<close>\<close>

lemma js_split_segments:
  "js_split c str =
     takeWhile (\<lambda>x. x \<noteq> c) str #
       (case dropWhile (\<lambda>x. x \<noteq> c) str of [] \<Rightarrow> [] | y # rest \<Rightarrow> js_split c rest)"
  by (induction str) auto

lemma toString16_small: "n < 16 \<Longrightarrow> toString16 n = [hex_digit n]"
  by (simp add: toString16.simps)

lemma hex_byte_digits: "hex_byte b = [hex_digit (unat b div 16), hex_digit (unat b mod 16)]"
proof -
  have "unat b < 2 ^ LENGTH(8)"
    by (rule unsigned_less)
  then have bound: "unat b < 256"
    by simp
  show ?thesis
  proof (cases "unat b < 16")
    case True
    then show ?thesis
      by (simp add: hex_byte_def padStart_def toString16_small hex_digit_def)
  next
    case False
    with bound have "unat b div 16 < 16" by simp
    with False show ?thesis
      by (simp add: hex_byte_def padStart_def toString16.simps [of "unat b"] toString16_small)
  qed
qed

lemma hex_digit_lowercase: "n < 16 \<Longrightarrow> hex_digit n \<in> set ''0123456789abcdef''"
  unfolding hex_digit_def by (rule nth_mem) simp

lemma takeWhile_upto: "c \<notin> set i \<Longrightarrow> takeWhile (\<lambda>x. x \<noteq> c) (i @ c # r) = i"
  by (induction i) auto

lemma dropWhile_upto: "c \<notin> set i \<Longrightarrow> dropWhile (\<lambda>x. x \<noteq> c) (i @ c # r) = c # r"
  by (induction i) auto

lemma takeWhile_whole: "c \<notin> set s \<Longrightarrow> takeWhile (\<lambda>x. x \<noteq> c) s = s"
  by (induction s) auto

lemma hashToken_one_segment:
  assumes "dropWhile (\<lambda>x. x \<noteq> CHR '':'') tok = []"
  shows "hashToken digest tok = Inl (Error ''Invalid token format'')"
proof -
  have "js_split (CHR '':'') tok = [takeWhile (\<lambda>x. x \<noteq> CHR '':'') tok]"
    using js_split_segments [of "CHR '':''" tok] assms by simp
  then show ?thesis
    by (simp add: hashToken_def)
qed

lemma hashToken_two_segments:
  assumes "dropWhile (\<lambda>x. x \<noteq> CHR '':'') tok = y # rest"
  shows "hashToken digest tok =
     (if takeWhile (\<lambda>x. x \<noteq> CHR '':'') tok = [] \<or> takeWhile (\<lambda>x. x \<noteq> CHR '':'') rest = []
      then Inl (Error ''Invalid token format'')
      else Inr (takeWhile (\<lambda>x. x \<noteq> CHR '':'') tok @ '':'' @
                concat (map hex_byte (digest (encode (takeWhile (\<lambda>x. x \<noteq> CHR '':'') rest))))))"
proof -
  obtain others where rest: "js_split (CHR '':'') rest = takeWhile (\<lambda>x. x \<noteq> CHR '':'') rest # others"
    using js_split_segments [of "CHR '':''" rest] by blast
  have "js_split (CHR '':'') tok =
          takeWhile (\<lambda>x. x \<noteq> CHR '':'') tok # takeWhile (\<lambda>x. x \<noteq> CHR '':'') rest # others"
    using js_split_segments [of "CHR '':''" tok] assms rest by simp
  then show ?thesis
    by (simp add: hashToken_def)
qed

text \<open>
  Claim C10. \<open>hashToken\<close> is a function of the token (and of the platform's digest). It
  returns a key exactly when the segment before the first \<^verbatim>\<open>:\<close> and the segment between
  the first and the second \<^verbatim>\<open>:\<close> are both non-empty, and throws ``Invalid token
  format'' otherwise. The key is the first segment, \<^verbatim>\<open>:\<close>, and two hexadecimal digits
  from \<^verbatim>\<open>0123456789abcdef\<close> for each byte of the digest of the second segment, high
  digit first. What follows a second \<^verbatim>\<open>:\<close> does not count: \<^verbatim>\<open>i:s:x\<close> and \<^verbatim>\<open>i:s\<close>
  give the same result.
\<close>

theorem hashToken_spec:
  "hashToken digest tok =
     (if segment1 tok \<noteq> [] \<and> segment2 tok \<noteq> []
      then Inr (segment1 tok @ '':'' @
                concat (map (\<lambda>b. [hex_digit (unat b div 16), hex_digit (unat b mod 16)])
                         (digest (encode (segment2 tok)))))
      else Inl (Error ''Invalid token format'')) \<and>
   (CHR '':'' \<notin> set i \<and> CHR '':'' \<notin> set s \<longrightarrow>
      hashToken digest (i @ '':'' @ s @ '':'' @ x) = hashToken digest (i @ '':'' @ s)) \<and>
   hex_digit (unat (b :: 8 word) div 16) \<in> set ''0123456789abcdef'' \<and>
   hex_digit (unat b mod 16) \<in> set ''0123456789abcdef''"
proof (intro conjI)
  have hex: "hex_byte = (\<lambda>b. [hex_digit (unat b div 16), hex_digit (unat b mod 16)])"
    by (rule ext) (rule hex_byte_digits)
  show "hashToken digest tok =
     (if segment1 tok \<noteq> [] \<and> segment2 tok \<noteq> []
      then Inr (segment1 tok @ '':'' @
                concat (map (\<lambda>b. [hex_digit (unat b div 16), hex_digit (unat b mod 16)])
                         (digest (encode (segment2 tok)))))
      else Inl (Error ''Invalid token format''))"
  proof (cases "dropWhile (\<lambda>x. x \<noteq> CHR '':'') tok")
    case Nil
    have "segment2 tok = []"
      unfolding segment2_def Nil by simp
    then show ?thesis
      by (simp add: hashToken_one_segment [OF Nil])
  next
    case (Cons y rest)
    have "segment2 tok = takeWhile (\<lambda>x. x \<noteq> CHR '':'') rest"
      unfolding segment2_def Cons by simp
    then show ?thesis
      by (simp add: hashToken_two_segments [OF Cons] segment1_def hex)
  qed
  show "CHR '':'' \<notin> set i \<and> CHR '':'' \<notin> set s \<longrightarrow>
      hashToken digest (i @ '':'' @ s @ '':'' @ x) = hashToken digest (i @ '':'' @ s)"
  proof
    assume free: "CHR '':'' \<notin> set i \<and> CHR '':'' \<notin> set s"
    then have tw: "\<And>r. takeWhile (\<lambda>x. x \<noteq> CHR '':'') (i @ CHR '':'' # r) = i"
      and dw: "\<And>r. dropWhile (\<lambda>x. x \<noteq> CHR '':'') (i @ CHR '':'' # r) = CHR '':'' # r"
      and tws: "\<And>r. takeWhile (\<lambda>x. x \<noteq> CHR '':'') (s @ CHR '':'' # r) = s"
      and tws': "takeWhile (\<lambda>x. x \<noteq> CHR '':'') s = s"
      by (simp_all add: takeWhile_upto dropWhile_upto takeWhile_whole)
    have "hashToken digest (i @ CHR '':'' # s @ CHR '':'' # x) =
          hashToken digest (i @ CHR '':'' # s)"
      by (simp add: hashToken_two_segments [OF dw] tw tws tws')
    then show "hashToken digest (i @ '':'' @ s @ '':'' @ x) = hashToken digest (i @ '':'' @ s)"
      by simp
  qed
  have "unat b < 2 ^ LENGTH(8)"
    by (rule unsigned_less)
  then have "unat b div 16 < 16"
    by simp
  then show "hex_digit (unat b div 16) \<in> set ''0123456789abcdef''"
    by (rule hex_digit_lowercase)
  show "hex_digit (unat b mod 16) \<in> set ''0123456789abcdef''"
    by (rule hex_digit_lowercase) simp
qed

theorem hashToken_spec_witness:
  "hashToken (\<lambda>bs. [10, 255]) ''id:s'' = Inr ''id:0aff'' \<and>
   hashToken (\<lambda>bs. [10, 255]) ''id:s:x'' = Inr ''id:0aff'' \<and>
   hashToken (\<lambda>bs. [10, 255]) ''id:'' = Inl (Error ''Invalid token format'')"
  using hashToken_spec [of "\<lambda>bs. [10, 255]" "''id:s''" "''id''" "''s''" "''x''" 10]
    hashToken_spec [of "\<lambda>bs. [10, 255]" "''id:''" "''id''" "''s''" "''x''" 10]
  by (simp add: segment1_def segment2_def hex_digit_def)

end
